theory Spec2Isabelle
  imports Complex_Main
begin

section \<open>The embedding cache and top-k retrieval of rag-basic\<close>

text \<open>
  This theory embeds \<^verbatim>\<open>src/vector_store.py\<close> (class \<^verbatim>\<open>VectorStore\<close>) and
  \<^verbatim>\<open>src/rag_pipeline.py\<close> (class \<^verbatim>\<open>RAGChat\<close>) and proves the properties the
  specification states about them.

  What the Python code takes from elsewhere is a parameter of the model:
  \<^item> the sentence-transformer model (\<^verbatim>\<open>self.model.encode\<close>), a pair of functions, one for a
    single text and one for a list of texts, into an arbitrary type \<open>'v\<close> of vectors;
  \<^item> \<^verbatim>\<open>util.cos_sim\<close>, a function from two vectors to a score; scores are real numbers
    (the idealisation of the library's floats, so there is no NaN);
  \<^item> \<^verbatim>\<open>load_pdf\<close> and \<^verbatim>\<open>chunk_text_simple\<close> of \<^verbatim>\<open>src/pdf_loader.py\<close> and
    \<^verbatim>\<open>query_openrouter\<close> of \<^verbatim>\<open>src/openrouter_api.py\<close>, the two modules that are not embedded here.

  A tensor of embeddings is the list of its rows (all of the dimension of the model, so
  that the score of a row against a query is defined), \<^verbatim>\<open>torch.cat(..., dim=0)\<close> is
  concatenation, and a pickled file holds the pair that was dumped into it. A pdf name is
  what the docstrings say it is, the file name of a PDF: a directory entry as
  \<^verbatim>\<open>os.listdir\<close> yields it, with no directory part, so that its cache file lies in the
  cache directory. Output written by \<^verbatim>\<open>print\<close> is left out.
\<close>

subsection \<open>Errors and the outside world\<close>

datatype error =
    FileNotFoundError string
  | ValueError string
  | RuntimeError string
  | IndexError string

type_synonym 'v entry = "string list \<times> 'v list"

text \<open>
  The part of the file system the code touches. \<open>cache_files\<close> is the cache directory of the
  store: \<open>None\<close> when the directory does not exist, otherwise its files by path, each
  holding the pickled pair. \<open>listdir\<close> is \<^verbatim>\<open>os.listdir\<close>: \<open>None\<close> when it raises (no such
  directory). \<open>model_calls\<close> records every list of texts that \<^verbatim>\<open>create\<close> has passed to
  the embedding model, oldest first; the code has no such field, it is there so that the
  invocations of the model can be counted.
\<close>

record 'v world =
  cache_files :: "(string \<rightharpoonup> 'v entry) option"
  listdir :: "string \<Rightarrow> string list option"
  model_calls :: "string list list"

record 'v SentenceTransformer =
  encode_text :: "string \<Rightarrow> 'v"
  encode_texts :: "string list \<Rightarrow> 'v list"

record 'v VectorStore =
  model :: "'v SentenceTransformer"
  cache_dir :: string

record pdf_loader =
  load_pdf :: "string \<Rightarrow> string"
  chunk_text_simple :: "string \<Rightarrow> string list"

subsection \<open>Paths and strings of the standard library\<close>

text \<open>\<^verbatim>\<open>str.rfind\<close> for a single character: the last index, or -1.\<close>

fun rfind :: "string \<Rightarrow> char \<Rightarrow> int" where
  "rfind [] c = - 1"
| "rfind (x # xs) c =
     (let r = rfind xs c in if 0 \<le> r then r + 1 else if x = c then 0 else - 1)"

text \<open>
  The loop of \<^verbatim>\<open>posixpath.splitext\<close> that skips the leading dots of the file name: it
  splits at the last dot as soon as it meets a character that is not a dot.
\<close>

function splitext_loop :: "string \<Rightarrow> nat \<Rightarrow> nat \<Rightarrow> (string \<times> string) option" where
  "splitext_loop p filenameIndex dotIndex =
     (if filenameIndex < dotIndex then
        (if take 1 (drop filenameIndex p) \<noteq> ''.''
         then Some (take dotIndex p, drop dotIndex p)
         else splitext_loop p (Suc filenameIndex) dotIndex)
      else None)"
  by pat_completeness auto
termination
  by (relation "measure (\<lambda>(p, filenameIndex, dotIndex). dotIndex - filenameIndex)") auto

definition splitext :: "string \<Rightarrow> string \<times> string" where
  "splitext p =
     (let sepIndex = rfind p (CHR ''/'');
          dotIndex = rfind p (CHR ''.'')
      in if sepIndex < dotIndex then
           (case splitext_loop p (nat (sepIndex + 1)) (nat dotIndex) of
              Some r \<Rightarrow> r
            | None \<Rightarrow> (p, []))
         else (p, []))"

text \<open>\<^verbatim>\<open>posixpath.join\<close> of two components.\<close>

definition path_join :: "string \<Rightarrow> string \<Rightarrow> string" where
  "path_join a b =
     (if take 1 b = ''/'' then b
      else if a = [] \<or> last a = CHR ''/'' then a @ b
      else a @ ''/'' @ b)"

text \<open>\<^verbatim>\<open>str.lower\<close> on the ASCII letters and \<^verbatim>\<open>str.endswith\<close>.\<close>

definition lower_char :: "char \<Rightarrow> char" where
  "lower_char c =
     (let n = (of_char c :: nat) in if 65 \<le> n \<and> n \<le> 90 then char_of (n + 32) else c)"

definition lower :: "string \<Rightarrow> string" where
  "lower s = map lower_char s"

definition endswith :: "string \<Rightarrow> string \<Rightarrow> bool" where
  "endswith s suffix =
     (length suffix \<le> length s \<and> drop (length s - length suffix) s = suffix)"

text \<open>\<^verbatim>\<open>sep.join(parts)\<close>.\<close>

fun str_join :: "string \<Rightarrow> string list \<Rightarrow> string" where
  "str_join sep [] = []"
| "str_join sep [x] = x"
| "str_join sep (x # y # ys) = x @ sep @ str_join sep (y # ys)"

subsection \<open>The tensor operations of the libraries\<close>

text \<open>
  \<^verbatim>\<open>Tensor.topk(k)[1]\<close> on a one-dimensional tensor: the indices of the \<open>k\<close> largest
  scores, largest first. It raises a RuntimeError when \<open>k\<close> is negative or larger than the
  number of scores. The library does not say which of two equal scores comes first; here
  the lower index does (a stable sort), and no theorem below depends on that choice.
\<close>

definition argsort_desc :: "real list \<Rightarrow> nat list" where
  "argsort_desc scores = sort_key (\<lambda>i. - (scores ! i)) [0..<length scores]"

definition topk_indices :: "real list \<Rightarrow> int \<Rightarrow> error + nat list" where
  "topk_indices scores k =
     (if k < 0 \<or> int (length scores) < k
      then Inl (RuntimeError ''selected index k out of range'')
      else Inr (take (nat k) (argsort_desc scores)))"

text \<open>\<^verbatim>\<open>chunks[i]\<close> for an index that is not negative.\<close>

definition getitem :: "'a list \<Rightarrow> nat \<Rightarrow> error + 'a" where
  "getitem xs i = (if i < length xs then Inr (xs ! i) else Inl (IndexError ''list index out of range''))"

text \<open>A list comprehension whose body may raise: the first error ends it.\<close>

fun comprehension :: "('a \<Rightarrow> error + 'b) \<Rightarrow> 'a list \<Rightarrow> error + 'b list" where
  "comprehension f [] = Inr []"
| "comprehension f (x # xs) =
     (case f x of
        Inl e \<Rightarrow> Inl e
      | Inr y \<Rightarrow> (case comprehension f xs of Inl e \<Rightarrow> Inl e | Inr ys \<Rightarrow> Inr (y # ys)))"

subsection \<open>VectorStore\<close>

text \<open>\<^verbatim>\<open>os.makedirs(self.cache_dir, exist_ok=True)\<close>.\<close>

definition makedirs :: "'v world \<Rightarrow> 'v world" where
  "makedirs w =
     (case cache_files w of
        None \<Rightarrow> w\<lparr>cache_files := Some Map.empty\<rparr>
      | Some files \<Rightarrow> w)"

definition VectorStore_init ::
  "'v SentenceTransformer \<Rightarrow> string \<Rightarrow> 'v world \<Rightarrow> 'v VectorStore \<times> 'v world" where
  "VectorStore_init m dir w = (\<lparr>model = m, cache_dir = dir\<rparr>, makedirs w)"

definition get_cache_path :: "'v VectorStore \<Rightarrow> string \<Rightarrow> string" where
  "get_cache_path vs pdf_name =
     (let base = fst (splitext pdf_name)
      in path_join (cache_dir vs) (base @ ''.pkl''))"

definition clear :: "'v VectorStore \<Rightarrow> 'v world \<Rightarrow> 'v world" where
  "clear vs w =
     makedirs (if cache_files w \<noteq> None then w\<lparr>cache_files := None\<rparr> else w)"

definition create ::
  "'v VectorStore \<Rightarrow> string \<Rightarrow> string list \<Rightarrow> 'v world \<Rightarrow> (error + unit) \<times> 'v world" where
  "create vs pdf_name chunks w =
     (let embeddings = encode_texts (model vs) chunks;
          w1 = w\<lparr>model_calls := model_calls w @ [chunks]\<rparr>;
          cache_file = get_cache_path vs pdf_name
      in case cache_files w1 of
           None \<Rightarrow> (Inl (FileNotFoundError cache_file), w1)
         | Some files \<Rightarrow>
             (Inr (), w1\<lparr>cache_files := Some (files(cache_file \<mapsto> (chunks, embeddings)))\<rparr>))"

definition load :: "'v VectorStore \<Rightarrow> string \<Rightarrow> 'v world \<Rightarrow> error + 'v entry" where
  "load vs pdf_name w =
     (let cache_file = get_cache_path vs pdf_name
      in case cache_files w of
           None \<Rightarrow> Inl (FileNotFoundError (''No cache found for '' @ pdf_name))
         | Some files \<Rightarrow>
             (case files cache_file of
                None \<Rightarrow> Inl (FileNotFoundError (''No cache found for '' @ pdf_name))
              | Some e \<Rightarrow> Inr e))"

definition fetch ::
  "'v VectorStore \<Rightarrow> string \<Rightarrow> string list \<Rightarrow> 'v world \<Rightarrow> (error + 'v entry) \<times> 'v world" where
  "fetch vs pdf_name chunks w =
     (case load vs pdf_name w of
        Inr e \<Rightarrow> (Inr e, w)
      | Inl (FileNotFoundError msg) \<Rightarrow>
          (case create vs pdf_name chunks w of
             (Inl err, w1) \<Rightarrow> (Inl err, w1)
           | (Inr u, w1) \<Rightarrow> (load vs pdf_name w1, w1))
      | Inl err \<Rightarrow> (Inl err, w))"

text \<open>
  The loop of \<^verbatim>\<open>fetch_all\<close> over the directory entries, with the two accumulators. An
  exception leaves the loop with the state reached so far.
\<close>

fun fetch_all_loop ::
  "'v VectorStore \<Rightarrow> pdf_loader \<Rightarrow> string \<Rightarrow> string list \<Rightarrow> string list \<times> 'v list list \<Rightarrow>
   'v world \<Rightarrow> (error + string list \<times> 'v list list) \<times> 'v world" where
  "fetch_all_loop vs ld pdf_folder [] acc w = (Inr acc, w)"
| "fetch_all_loop vs ld pdf_folder (file # files) (all_chunks, all_embeddings) w =
     (if endswith (lower file) ''.pdf'' then
        (let path = path_join pdf_folder file;
             raw_text = load_pdf ld path;
             chunks = chunk_text_simple ld raw_text
         in case fetch vs file chunks w of
              (Inl err, w1) \<Rightarrow> (Inl err, w1)
            | (Inr (chunks', embeddings), w1) \<Rightarrow>
                fetch_all_loop vs ld pdf_folder files
                  (all_chunks @ chunks', all_embeddings @ [embeddings]) w1)
      else fetch_all_loop vs ld pdf_folder files (all_chunks, all_embeddings) w)"

definition fetch_all ::
  "'v VectorStore \<Rightarrow> pdf_loader \<Rightarrow> string \<Rightarrow> 'v world \<Rightarrow> (error + 'v entry) \<times> 'v world" where
  "fetch_all vs ld pdf_folder w =
     (case listdir w pdf_folder of
        None \<Rightarrow> (Inl (FileNotFoundError pdf_folder), w)
      | Some files \<Rightarrow>
          (case fetch_all_loop vs ld pdf_folder files ([], []) w of
             (Inl err, w1) \<Rightarrow> (Inl err, w1)
           | (Inr (all_chunks, all_embeddings), w1) \<Rightarrow>
               if all_chunks = []
               then (Inl (ValueError ''No valid PDFs found in the specified folder.''), w1)
               else (Inr (all_chunks, concat all_embeddings), w1)))"

definition retrieve_top_k ::
  "'v VectorStore \<Rightarrow> ('v \<Rightarrow> 'v \<Rightarrow> real) \<Rightarrow> string list \<Rightarrow> 'v list \<Rightarrow> string \<Rightarrow> int \<Rightarrow>
   error + string list" where
  "retrieve_top_k vs cos_sim chunks embeddings query k =
     (let query_embedding = encode_text (model vs) query;
          scores = map (cos_sim query_embedding) embeddings
      in case topk_indices scores k of
           Inl err \<Rightarrow> Inl err
         | Inr top_indices \<Rightarrow> comprehension (getitem chunks) top_indices)"

fun reset_loop ::
  "'v VectorStore \<Rightarrow> pdf_loader \<Rightarrow> string \<Rightarrow> string list \<Rightarrow> 'v world \<Rightarrow>
   (error + unit) \<times> 'v world" where
  "reset_loop vs ld pdf_folder [] w = (Inr (), w)"
| "reset_loop vs ld pdf_folder (file # files) w =
     (if endswith (lower file) ''.pdf'' then
        (let path = path_join pdf_folder file;
             raw_text = load_pdf ld path;
             chunks = chunk_text_simple ld raw_text
         in case create vs file chunks w of
              (Inl err, w1) \<Rightarrow> (Inl err, w1)
            | (Inr u, w1) \<Rightarrow> reset_loop vs ld pdf_folder files w1)
      else reset_loop vs ld pdf_folder files w)"

definition reset :: "'v VectorStore \<Rightarrow> pdf_loader \<Rightarrow> string \<Rightarrow> 'v world \<Rightarrow> (error + unit) \<times> 'v world" where
  "reset vs ld pdf_folder w =
     (let w0 = clear vs w
      in case listdir w0 pdf_folder of
           None \<Rightarrow> (Inl (FileNotFoundError pdf_folder), w0)
         | Some files \<Rightarrow> reset_loop vs ld pdf_folder files w0)"

subsection \<open>RAGChat\<close>

text \<open>
  \<^verbatim>\<open>query_openrouter\<close> is a parameter of \<open>ask\<close>; it may fail, and \<open>ask\<close> passes its
  result on. The argument \<open>top_k_arg\<close> is \<open>None\<close> when the caller leaves \<^verbatim>\<open>top_k\<close> out,
  which then takes its default.
\<close>

record 'v RAGChat =
  pdf_folder :: string
  vstore :: "'v VectorStore"
  chunks :: "string list"
  embeddings :: "'v list"

definition RAGChat_init ::
  "'v SentenceTransformer \<Rightarrow> pdf_loader \<Rightarrow> string \<Rightarrow> 'v world \<Rightarrow> (error + 'v RAGChat) \<times> 'v world" where
  "RAGChat_init m ld folder w =
     (let (vs, w0) = VectorStore_init m ''data/cache'' w
      in case fetch_all vs ld folder w0 of
           (Inl err, w1) \<Rightarrow> (Inl err, w1)
         | (Inr (cs, es), w1) \<Rightarrow>
             (Inr \<lparr>pdf_folder = folder, vstore = vs, chunks = cs, embeddings = es\<rparr>, w1))"

definition ask ::
  "'v RAGChat \<Rightarrow> ('v \<Rightarrow> 'v \<Rightarrow> real) \<Rightarrow> (string \<Rightarrow> string \<Rightarrow> error + string) \<Rightarrow> string \<Rightarrow>
   int option \<Rightarrow> error + string" where
  "ask self cos_sim query_openrouter question top_k_arg =
     (let top_k = (case top_k_arg of None \<Rightarrow> 3 | Some k \<Rightarrow> k)
      in case retrieve_top_k (vstore self) cos_sim (chunks self) (embeddings self) question top_k of
           Inl err \<Rightarrow> Inl err
         | Inr top_chunks \<Rightarrow>
             (let context = str_join [CHR 0x0A, CHR 0x0A] top_chunks
              in query_openrouter question context))"

subsection \<open>Properties named in the specification\<close>

text \<open>
  The specification's words for the result of a retrieval, as a predicate on a list of
  indices into the scores: there are \<open>k\<close> of them, all different and in range, the scores
  descend along the list, and no score left out is larger than a score taken.
\<close>

definition is_top_k :: "real list \<Rightarrow> nat \<Rightarrow> nat list \<Rightarrow> bool" where
  "is_top_k scores k idxs \<longleftrightarrow>
     length idxs = k \<and> distinct idxs \<and> (\<forall>i\<in>set idxs. i < length scores) \<and>
     sorted_wrt (\<lambda>i j. scores ! j \<le> scores ! i) idxs \<and>
     (\<forall>j<length scores. j \<notin> set idxs \<longrightarrow> (\<forall>i\<in>set idxs. scores ! j \<le> scores ! i))"

text \<open>
  The invariant of a cache entry (as many embedding rows as chunks), of a cache directory
  (every file holds such an entry) and of an embedding model (one row for each text).
\<close>

definition entry_ok :: "'v entry \<Rightarrow> bool" where
  "entry_ok e \<longleftrightarrow> length (fst e) = length (snd e)"

definition cache_ok :: "'v world \<Rightarrow> bool" where
  "cache_ok w \<longleftrightarrow> (\<forall>files e. cache_files w = Some files \<and> e \<in> ran files \<longrightarrow> entry_ok e)"

definition model_ok :: "'v SentenceTransformer \<Rightarrow> bool" where
  "model_ok m \<longleftrightarrow> (\<forall>texts. length (encode_texts m texts) = length texts)"

text \<open>The directory entries that \<^verbatim>\<open>fetch_all\<close> and \<^verbatim>\<open>reset\<close> process.\<close>

definition pdf_entries :: "string list \<Rightarrow> string list" where
  "pdf_entries files = filter (\<lambda>file. endswith (lower file) ''.pdf'') files"

text \<open>
  What \<^verbatim>\<open>fetch_all\<close> is to collect for a pdf file, in the specification's words: the
  entry the cache held for the file's key before the call; on a miss, the chunks the chunker
  produces from the document together with their embeddings. Two files of one listing may
  share a key (they differ in the extension only); then the first of them in the listing
  is the document that is chunked, and the later one meets its entry.
\<close>

definition document_chunks :: "pdf_loader \<Rightarrow> string \<Rightarrow> string \<Rightarrow> string list" where
  "document_chunks ld folder name = chunk_text_simple ld (load_pdf ld (path_join folder name))"

definition expected_entry ::
  "'v VectorStore \<Rightarrow> pdf_loader \<Rightarrow> string \<Rightarrow> (string \<rightharpoonup> 'v entry) \<Rightarrow> string list \<Rightarrow>
   string \<Rightarrow> 'v entry" where
  "expected_entry vs ld folder cache pdfs name =
     (case cache (get_cache_path vs name) of
        Some e \<Rightarrow> e
      | None \<Rightarrow>
          (let first = hd (filter (\<lambda>other. get_cache_path vs other = get_cache_path vs name) pdfs);
               C = document_chunks ld folder first
           in (C, encode_texts (model vs) C)))"

subsection \<open>An instance of the parameters, for the examples\<close>

text \<open>
  Vectors are lists of reals, the score is the cosine of the angle between two vectors (0
  when one of them is the zero vector), and the model knows three texts.
\<close>

fun dot :: "real list \<Rightarrow> real list \<Rightarrow> real" where
  "dot (x # xs) (y # ys) = x * y + dot xs ys"
| "dot xs ys = 0"

definition example_cos_sim :: "real list \<Rightarrow> real list \<Rightarrow> real" where
  "example_cos_sim a b =
     (if sqrt (dot a a) = 0 \<or> sqrt (dot b b) = 0 then 0
      else dot a b / (sqrt (dot a a) * sqrt (dot b b)))"

definition example_embed :: "string \<Rightarrow> real list" where
  "example_embed s =
     (if s = ''alpha fact one'' then [1, 0]
      else if s = ''alpha fact two'' then [3, 4]
      else if s = ''beta fact one'' then [4, 3]
      else [0, 0])"

definition example_model :: "real list SentenceTransformer" where
  "example_model = \<lparr>encode_text = example_embed, encode_texts = map example_embed\<rparr>"

definition example_store :: "real list VectorStore" where
  "example_store = \<lparr>model = example_model, cache_dir = ''data/cache''\<rparr>"

definition example_loader :: pdf_loader where
  "example_loader =
     \<lparr>load_pdf = (\<lambda>path. path),
      chunk_text_simple = (\<lambda>raw_text.
        if raw_text = ''data/pdf/a.pdf'' then [''alpha fact one'', ''alpha fact two'']
        else if raw_text = ''data/pdf/b.PDF'' then [''beta fact one'']
        else [])\<rparr>"

definition example_world :: "real list world" where
  "example_world =
     \<lparr>cache_files = Some Map.empty,
      listdir = (\<lambda>dir.
        if dir = ''data/pdf'' then Some [''a.pdf'', ''notes.txt'', ''b.PDF'']
        else if dir = ''data/empty'' then Some [''notes.txt'']
        else None),
      model_calls = []\<rparr>"

definition example_chunks :: "string list" where
  "example_chunks = [''alpha fact one'', ''alpha fact two'', ''beta fact one'']"

definition example_chat :: "real list RAGChat" where
  "example_chat =
     \<lparr>pdf_folder = ''data/pdf'', vstore = example_store, chunks = example_chunks,
      embeddings = map example_embed example_chunks\<rparr>"

definition example_small_chat :: "real list RAGChat" where
  "example_small_chat =
     \<lparr>pdf_folder = ''data/pdf'', vstore = example_store,
      chunks = [''alpha fact one'', ''alpha fact two''],
      embeddings = map example_embed [''alpha fact one'', ''alpha fact two'']\<rparr>"

definition example_openrouter :: "string \<Rightarrow> string \<Rightarrow> error + string" where
  "example_openrouter question context = Inr (''Q: '' @ question @ '' C: '' @ context)"

section \<open>Proofs\<close>

subsection \<open>The cache: load, create, fetch, clear\<close>

lemma load_Inr_iff:
  "load vs pdf_name w = Inr e \<longleftrightarrow>
   (\<exists>files. cache_files w = Some files \<and> files (get_cache_path vs pdf_name) = Some e)"
  by (auto simp: load_def split: option.splits)

lemma load_Inl:
  "load vs pdf_name w = Inl err \<Longrightarrow> err = FileNotFoundError (''No cache found for '' @ pdf_name)"
  by (auto simp: load_def split: option.splits)

lemma create_ok:
  "cache_files w = Some files \<Longrightarrow>
   create vs pdf_name C w =
     (Inr (), w\<lparr>model_calls := model_calls w @ [C],
               cache_files := Some (files(get_cache_path vs pdf_name \<mapsto> (C, encode_texts (model vs) C)))\<rparr>)"
  by (simp add: create_def)

lemma fetch_hit: "load vs pdf_name w = Inr e \<Longrightarrow> fetch vs pdf_name C w = (Inr e, w)"
  by (simp add: fetch_def)

lemma fetch_miss:
  assumes "cache_files w = Some files" and "files (get_cache_path vs pdf_name) = None"
  shows "fetch vs pdf_name C w =
     (Inr (C, encode_texts (model vs) C),
      w\<lparr>model_calls := model_calls w @ [C],
        cache_files := Some (files(get_cache_path vs pdf_name \<mapsto> (C, encode_texts (model vs) C)))\<rparr>)"
  using assms by (simp add: fetch_def load_def create_def)

text \<open>
  Claim C3 (round trip): when the cache directory exists, \<open>create\<close> for a pdf name and a
  list of chunks \<open>C\<close> succeeds, and a \<open>load\<close> of the same name afterwards returns exactly
  \<open>C\<close> and the embeddings the model computed for \<open>C\<close>, in the same order.
\<close>

theorem create_then_load_roundtrip:
  assumes "cache_files w \<noteq> None"
  shows "fst (create vs pdf_name C w) = Inr () \<and>
         load vs pdf_name (snd (create vs pdf_name C w)) = Inr (C, encode_texts (model vs) C)"
  using assms by (auto simp: create_ok load_def)

theorem create_then_load_roundtrip_witness:
  "cache_files example_world \<noteq> None \<and>
   fst (create example_store ''a.pdf'' [''alpha fact one'', ''alpha fact two''] example_world) = Inr () \<and>
   load example_store ''a.pdf''
     (snd (create example_store ''a.pdf'' [''alpha fact one'', ''alpha fact two''] example_world)) =
   Inr ([''alpha fact one'', ''alpha fact two''], [[1, 0], [3, 4]])"
  using create_then_load_roundtrip
    [of example_world example_store "''a.pdf''" "[''alpha fact one'', ''alpha fact two'']"]
  by (simp add: example_world_def example_store_def example_model_def example_embed_def)

text \<open>
  Claim C6: after \<open>clear\<close>, a \<open>load\<close> of a pdf name that was cached before raises
  FileNotFoundError (it does not return the old entry); the cache directory exists and is
  empty, and a \<open>create\<close> in it succeeds and can be loaded.
\<close>

theorem clear_then_load_not_found:
  assumes "load vs pdf_name w = Inr e"
  shows "load vs pdf_name (clear vs w) = Inl (FileNotFoundError (''No cache found for '' @ pdf_name)) \<and>
         cache_files (clear vs w) = Some Map.empty \<and>
         fst (create vs name C (clear vs w)) = Inr () \<and>
         load vs name (snd (create vs name C (clear vs w))) = Inr (C, encode_texts (model vs) C)"
  by (simp add: clear_def makedirs_def load_def create_def)

theorem clear_then_load_not_found_witness:
  "load example_store ''a.pdf''
     (snd (create example_store ''a.pdf'' [''alpha fact one''] example_world)) =
     Inr ([''alpha fact one''], [[1, 0]]) \<and>
   load example_store ''a.pdf''
     (clear example_store (snd (create example_store ''a.pdf'' [''alpha fact one''] example_world))) =
     Inl (FileNotFoundError ''No cache found for a.pdf'') \<and>
   load example_store ''b.pdf''
     (snd (create example_store ''b.pdf'' [''beta fact one'']
        (clear example_store (snd (create example_store ''a.pdf'' [''alpha fact one''] example_world))))) =
     Inr ([''beta fact one''], [[4, 3]])"
proof -
  let ?w = "snd (create example_store ''a.pdf'' [''alpha fact one''] example_world)"
  have hit: "load example_store ''a.pdf'' ?w = Inr ([''alpha fact one''], [[1, 0]])"
    by (simp add: load_def create_def example_world_def example_store_def example_model_def
        example_embed_def)
  show ?thesis
    using hit clear_then_load_not_found [OF hit, of "''b.pdf''" "[''beta fact one'']"]
    by (simp add: example_store_def example_model_def example_embed_def)
qed

text \<open>
  Claim C8: when the cache holds an entry for a pdf name, \<open>fetch\<close> returns that entry and
  leaves the world as it is, whatever fallback chunks it is given; so in \<open>fetch_all\<close> the
  chunks just produced from the document are dropped in favour of the cached entry.
\<close>

theorem fetch_hit_ignores_fallback:
  assumes "load vs pdf_name w = Inr e"
  shows "fetch vs pdf_name c1 w = (Inr e, w) \<and>
         fetch vs pdf_name c2 w = fetch vs pdf_name c1 w \<and>
         (endswith (lower pdf_name) ''.pdf'' \<longrightarrow>
          fetch_all_loop vs ld folder (pdf_name # files) (all_chunks, all_embeddings) w =
          fetch_all_loop vs ld folder files (all_chunks @ fst e, all_embeddings @ [snd e]) w)"
  using assms by (cases e) (simp add: fetch_hit)

theorem fetch_hit_ignores_fallback_witness:
  "load example_store ''a.pdf''
     (snd (create example_store ''a.pdf'' [''alpha fact one''] example_world)) =
     Inr ([''alpha fact one''], [[1, 0]]) \<and>
   fst (fetch example_store ''a.pdf'' [''beta fact one'']
     (snd (create example_store ''a.pdf'' [''alpha fact one''] example_world))) =
     Inr ([''alpha fact one''], [[1, 0]]) \<and>
   fetch example_store ''a.pdf'' []
     (snd (create example_store ''a.pdf'' [''alpha fact one''] example_world)) =
   fetch example_store ''a.pdf'' [''beta fact one'']
     (snd (create example_store ''a.pdf'' [''alpha fact one''] example_world))"
proof -
  let ?w = "snd (create example_store ''a.pdf'' [''alpha fact one''] example_world)"
  have hit: "load example_store ''a.pdf'' ?w = Inr ([''alpha fact one''], [[1, 0]])"
    by (simp add: load_def create_def example_world_def example_store_def example_model_def
        example_embed_def)
  show ?thesis
    using hit fetch_hit_ignores_fallback [OF hit, of "[''beta fact one'']" "[]"]
    by simp
qed

text \<open>
  Claim C2: when the cache directory exists, two calls of \<open>fetch\<close> with the same pdf name
  and the same fallback chunks \<open>C\<close> invoke the embedding model at most once. On a miss the
  first call passes \<open>C\<close> to the model (one invocation), saves, and returns the entry it
  loads back, which is \<open>C\<close> with its embeddings; the second call returns the same entry
  and changes nothing. On a hit neither call invokes the model.
\<close>

theorem fetch_twice_creates_once:
  assumes "cache_files w \<noteq> None"
  shows "(let (r1, w1) = fetch vs pdf_name C w;
              (r2, w2) = fetch vs pdf_name C w1
          in r2 = r1 \<and> w2 = w1 \<and> load vs pdf_name w1 = r1 \<and>
             (case load vs pdf_name w of
                Inl err \<Rightarrow> r1 = Inr (C, encode_texts (model vs) C) \<and>
                           model_calls w2 = model_calls w @ [C]
              | Inr e \<Rightarrow> r1 = Inr e \<and> model_calls w2 = model_calls w))"
  using assms
  by (auto simp: fetch_def load_def create_def split: option.splits)

theorem fetch_twice_creates_once_witness:
  "cache_files example_world \<noteq> None \<and>
   load example_store ''a.pdf'' example_world = Inl (FileNotFoundError ''No cache found for a.pdf'') \<and>
   (let (r1, w1) = fetch example_store ''a.pdf'' [''alpha fact one'', ''alpha fact two''] example_world;
        (r2, w2) = fetch example_store ''a.pdf'' [''alpha fact one'', ''alpha fact two''] w1
    in r1 = Inr ([''alpha fact one'', ''alpha fact two''], [[1, 0], [3, 4]]) \<and> r2 = r1 \<and>
       model_calls w2 = [[''alpha fact one'', ''alpha fact two'']])"
proof -
  have dir: "cache_files example_world \<noteq> None"
    by (simp add: example_world_def)
  have miss: "load example_store ''a.pdf'' example_world = Inl (FileNotFoundError ''No cache found for a.pdf'')"
    by (simp add: load_def example_world_def)
  have calls: "model_calls example_world = []"
    by (simp add: example_world_def)
  have enc: "encode_texts (model example_store) [''alpha fact one'', ''alpha fact two''] = [[1, 0], [3, 4]]"
    by (simp add: example_store_def example_model_def example_embed_def)
  show ?thesis
    using dir miss
      fetch_twice_creates_once [OF dir, of example_store "''a.pdf''" "[''alpha fact one'', ''alpha fact two'']"]
    by (simp add: calls enc split: prod.splits)
qed

subsection \<open>Retrieval: the k best scores\<close>

lemma set_argsort_desc: "set (argsort_desc scores) = {0..<length scores}"
  by (simp add: argsort_desc_def)

lemma distinct_argsort_desc: "distinct (argsort_desc scores)"
  by (simp add: argsort_desc_def)

lemma length_argsort_desc: "length (argsort_desc scores) = length scores"
  by (simp add: argsort_desc_def)

lemma sorted_wrt_argsort_desc:
  "sorted_wrt (\<lambda>i j. scores ! j \<le> scores ! i) (argsort_desc scores)"
proof -
  have "sorted (map (\<lambda>i. - (scores ! i)) (argsort_desc scores))"
    by (simp add: argsort_desc_def)
  then show ?thesis
    by (simp add: sorted_map)
qed

lemma is_top_k_take_argsort:
  assumes "k \<le> length scores"
  shows "is_top_k scores k (take k (argsort_desc scores))"
proof -
  let ?xs = "argsort_desc scores"
  have split: "?xs = take k ?xs @ drop k ?xs" by simp
  have srt: "sorted_wrt (\<lambda>i j. scores ! j \<le> scores ! i) (take k ?xs @ drop k ?xs)"
    using sorted_wrt_argsort_desc [of scores] by simp
  have rest: "j \<in> set (drop k ?xs)" if "j < length scores" "j \<notin> set (take k ?xs)" for j
  proof -
    have "j \<in> set ?xs" using that(1) by (simp add: set_argsort_desc)
    then have "j \<in> set (take k ?xs) \<union> set (drop k ?xs)"
      by (metis set_append split)
    with that(2) show ?thesis by blast
  qed
  have "length (take k ?xs) = k"
    using assms by (simp add: length_argsort_desc)
  moreover have "distinct (take k ?xs)"
    by (simp add: distinct_argsort_desc)
  moreover have "\<forall>i\<in>set (take k ?xs). i < length scores"
    using set_argsort_desc [of scores] by (auto dest: in_set_takeD)
  moreover have "sorted_wrt (\<lambda>i j. scores ! j \<le> scores ! i) (take k ?xs)"
    using srt unfolding sorted_wrt_append by blast
  moreover have "\<forall>j<length scores. j \<notin> set (take k ?xs) \<longrightarrow>
      (\<forall>i\<in>set (take k ?xs). scores ! j \<le> scores ! i)"
    using srt rest unfolding sorted_wrt_append by blast
  ultimately show ?thesis
    unfolding is_top_k_def by blast
qed

lemma comprehension_getitem:
  "\<forall>i\<in>set idxs. i < length xs \<Longrightarrow> comprehension (getitem xs) idxs = Inr (map ((!) xs) idxs)"
  by (induction idxs) (simp_all add: getitem_def)

lemma retrieve_top_k_ok:
  assumes "length cs = length es" and "0 \<le> k" and "k \<le> int (length es)"
  shows "retrieve_top_k vs cos_sim cs es q k =
         Inr (map ((!) cs) (take (nat k) (argsort_desc (map (cos_sim (encode_text (model vs) q)) es))))"
proof -
  let ?scores = "map (cos_sim (encode_text (model vs) q)) es"
  have "is_top_k ?scores (nat k) (take (nat k) (argsort_desc ?scores))"
    using assms by (intro is_top_k_take_argsort) simp
  then have "\<forall>i\<in>set (take (nat k) (argsort_desc ?scores)). i < length cs"
    using assms(1) by (simp add: is_top_k_def)
  then show ?thesis
    using assms by (simp add: retrieve_top_k_def topk_indices_def comprehension_getitem)
qed

lemma retrieve_top_k_too_many:
  "int (length es) < k \<Longrightarrow>
   retrieve_top_k vs cos_sim cs es q k = Inl (RuntimeError ''selected index k out of range'')"
  by (simp add: retrieve_top_k_def topk_indices_def)

lemma example_scores:
  "map (example_cos_sim (encode_text (model example_store) ''alpha fact two''))
     (map example_embed example_chunks) = [3 / 5, 1, 24 / 25]"
  by (simp add: example_cos_sim_def example_embed_def example_chunks_def example_store_def
      example_model_def)

lemma example_argsort: "argsort_desc [3 / 5, 1, 24 / 25] = [1, 2, 0]"
  by (simp add: argsort_desc_def upt_conv_Cons)

lemma example_retrieve:
  "retrieve_top_k example_store example_cos_sim example_chunks (map example_embed example_chunks)
     ''alpha fact two'' 2 = Inr [''alpha fact two'', ''beta fact one'']"
proof -
  have "topk_indices [3 / 5, 1, 24 / 25] 2 = Inr [1, 2]"
    by (simp add: topk_indices_def example_argsort)
  moreover have "comprehension (getitem example_chunks) [1, 2] = Inr [''alpha fact two'', ''beta fact one'']"
    by (simp add: getitem_def example_chunks_def)
  ultimately show ?thesis
    by (simp only: retrieve_top_k_def Let_def example_scores sum.case)
qed

text \<open>
  Claim C9: with \<open>k = 0\<close>, \<open>retrieve_top_k\<close> returns the empty list, for every pool and
  every query.
\<close>

theorem retrieve_top_k_zero: "retrieve_top_k vs cos_sim cs es q 0 = Inr []"
  by (simp add: retrieve_top_k_def topk_indices_def)

theorem retrieve_top_k_zero_witness:
  "retrieve_top_k example_store example_cos_sim example_chunks (map example_embed example_chunks)
     ''alpha fact two'' 0 = Inr []"
  using retrieve_top_k_zero
    [of example_store example_cos_sim example_chunks "map example_embed example_chunks" "''alpha fact two''"]
  by simp

text \<open>
  Claim C4: for a pool with as many chunks as embedding rows and \<open>0 \<le> k \<le> n\<close>,
  \<open>retrieve_top_k\<close> embeds the query with the store's model, scores every row against
  it, and returns the chunks at \<open>k\<close> indices that are the top \<open>k\<close> of the scores in the
  sense of \<open>is_top_k\<close>: most similar first, and nothing left out scores higher.
\<close>

theorem retrieve_top_k_returns_top_k:
  assumes "length cs = length es" and "0 \<le> k" and "k \<le> int (length es)"
  shows "\<exists>idxs. retrieve_top_k vs cos_sim cs es q k = Inr (map ((!) cs) idxs) \<and>
           is_top_k (map (cos_sim (encode_text (model vs) q)) es) (nat k) idxs"
proof -
  let ?scores = "map (cos_sim (encode_text (model vs) q)) es"
  have "is_top_k ?scores (nat k) (take (nat k) (argsort_desc ?scores))"
    using assms by (intro is_top_k_take_argsort) simp
  with retrieve_top_k_ok [OF assms] show ?thesis
    by blast
qed

theorem retrieve_top_k_returns_top_k_witness:
  "length example_chunks = length (map example_embed example_chunks) \<and> (0::int) \<le> 2 \<and>
   (2::int) \<le> int (length (map example_embed example_chunks)) \<and>
   (\<exists>idxs. retrieve_top_k example_store example_cos_sim example_chunks
        (map example_embed example_chunks) ''alpha fact two'' 2 = Inr (map ((!) example_chunks) idxs) \<and>
      is_top_k (map (example_cos_sim (encode_text (model example_store) ''alpha fact two''))
        (map example_embed example_chunks)) (nat 2) idxs) \<and>
   retrieve_top_k example_store example_cos_sim example_chunks
        (map example_embed example_chunks) ''alpha fact two'' 2 = Inr [''alpha fact two'', ''beta fact one'']"
proof -
  have h1: "length example_chunks = length (map example_embed example_chunks)"
    by simp
  have h2: "(0::int) \<le> 2"
    by simp
  have h3: "(2::int) \<le> int (length (map example_embed example_chunks))"
    by (simp add: example_chunks_def)
  show ?thesis
    using h1 h2 h3 example_retrieve
      retrieve_top_k_returns_top_k [OF h1 h2 h3, of example_store example_cos_sim "''alpha fact two''"]
    by blast
qed

text \<open>
  Claim C1, as the code has it: the code does not clamp \<open>k\<close>. For a pool of \<open>n\<close> chunks
  with matching embeddings, \<open>retrieve_top_k\<close> with \<open>k\<close> greater than \<open>n\<close> raises the
  RuntimeError of \<^verbatim>\<open>topk\<close>; the entire pool, ordered by similarity to the query,
  descending, is what it returns for \<open>k = n\<close>.
\<close>

theorem retrieve_top_k_beyond_pool_raises:
  assumes "length cs = length es"
  shows "(int (length es) < k \<longrightarrow>
            retrieve_top_k vs cos_sim cs es q k = Inl (RuntimeError ''selected index k out of range'')) \<and>
         (\<exists>idxs. retrieve_top_k vs cos_sim cs es q (int (length es)) = Inr (map ((!) cs) idxs) \<and>
            length idxs = length cs \<and> distinct idxs \<and> set idxs = {0..<length cs} \<and>
            sorted_wrt (\<lambda>i j. cos_sim (encode_text (model vs) q) (es ! j) \<le>
                               cos_sim (encode_text (model vs) q) (es ! i)) idxs)"
proof -
  let ?scores = "map (cos_sim (encode_text (model vs) q)) es"
  let ?idxs = "argsort_desc ?scores"
  have ret: "retrieve_top_k vs cos_sim cs es q (int (length es)) = Inr (map ((!) cs) ?idxs)"
    using retrieve_top_k_ok [OF assms, of "int (length es)" vs cos_sim q]
    by (simp add: length_argsort_desc)
  have set: "set ?idxs = {0..<length cs}"
    using assms by (simp add: set_argsort_desc)
  have "sorted_wrt (\<lambda>i j. ?scores ! j \<le> ?scores ! i) ?idxs"
    by (rule sorted_wrt_argsort_desc)
  then have srt: "sorted_wrt (\<lambda>i j. cos_sim (encode_text (model vs) q) (es ! j) \<le>
                               cos_sim (encode_text (model vs) q) (es ! i)) ?idxs"
    by (rule sorted_wrt_mono_rel [rotated]) (use set assms in auto)
  have "length ?idxs = length cs"
    using assms by (simp add: length_argsort_desc)
  with ret set srt distinct_argsort_desc [of ?scores] show ?thesis
    by (auto simp: retrieve_top_k_too_many)
qed

theorem retrieve_top_k_beyond_pool_counterexample:
  "retrieve_top_k example_store example_cos_sim [''alpha fact one''] [[1, 0]] ''alpha fact two'' 2 =
     Inl (RuntimeError ''selected index k out of range'') \<and>
   retrieve_top_k example_store example_cos_sim [''alpha fact one''] [[1, 0]] ''alpha fact two'' 2 \<noteq>
     Inr [''alpha fact one'']"
  by (simp add: retrieve_top_k_def topk_indices_def)

lemma example_retrieve_all:
  "retrieve_top_k example_store example_cos_sim example_chunks (map example_embed example_chunks)
     ''alpha fact two'' 3 = Inr [''alpha fact two'', ''beta fact one'', ''alpha fact one'']"
proof -
  have "topk_indices [3 / 5, 1, 24 / 25] 3 = Inr [1, 2, 0]"
    by (simp add: topk_indices_def example_argsort)
  moreover have "comprehension (getitem example_chunks) [1, 2, 0] =
      Inr [''alpha fact two'', ''beta fact one'', ''alpha fact one'']"
    by (simp add: getitem_def example_chunks_def)
  ultimately show ?thesis
    by (simp only: retrieve_top_k_def Let_def example_scores sum.case)
qed

theorem retrieve_top_k_beyond_pool_raises_witness:
  "length example_chunks = length (map example_embed example_chunks) \<and>
   int (length (map example_embed example_chunks)) < 5 \<and>
   retrieve_top_k example_store example_cos_sim example_chunks (map example_embed example_chunks)
     ''alpha fact two'' 5 = Inl (RuntimeError ''selected index k out of range'') \<and>
   retrieve_top_k example_store example_cos_sim example_chunks (map example_embed example_chunks)
     ''alpha fact two'' 3 = Inr [''alpha fact two'', ''beta fact one'', ''alpha fact one'']"
proof -
  have h1: "length example_chunks = length (map example_embed example_chunks)"
    by simp
  have h2: "int (length (map example_embed example_chunks)) < 5"
    by (simp add: example_chunks_def)
  show ?thesis
    using h1 h2 example_retrieve_all
      retrieve_top_k_beyond_pool_raises [OF h1, of 5 example_store example_cos_sim "''alpha fact two''"]
    by blast
qed

subsection \<open>RAGChat.ask\<close>

text \<open>
  Claim C10, as the code has it: \<open>ask\<close> passes \<open>top_k\<close> (3 when the argument is left
  out) on to \<open>retrieve_top_k\<close> unchanged. For a pool with matching embeddings and
  \<open>0 \<le> top_k \<le> n\<close>, \<open>ask\<close> takes the chunks at the top \<open>top_k\<close> indices of the scores,
  joins them with a blank line between successive chunks, and returns what
  \<open>query_openrouter\<close> returns for the question and that context, unchanged. When \<open>top_k\<close>
  is greater than \<open>n\<close>, \<open>ask\<close> raises the RuntimeError of \<open>retrieve_top_k\<close> and returns no
  answer.
\<close>

theorem ask_top_k_within_pool:
  assumes "top_k = (case top_k_arg of None \<Rightarrow> 3 | Some k \<Rightarrow> k)"
    and "length (chunks self) = length (embeddings self)"
  shows "(0 \<le> top_k \<and> top_k \<le> int (length (embeddings self)) \<longrightarrow>
          (\<exists>idxs. is_top_k (map (cos_sim (encode_text (model (vstore self)) question)) (embeddings self))
                     (nat top_k) idxs \<and>
             ask self cos_sim query_openrouter question top_k_arg =
             query_openrouter question (str_join [CHR 0x0A, CHR 0x0A] (map ((!) (chunks self)) idxs)))) \<and>
         (int (length (embeddings self)) < top_k \<longrightarrow>
          ask self cos_sim query_openrouter question top_k_arg =
          Inl (RuntimeError ''selected index k out of range''))"
proof -
  let ?scores = "map (cos_sim (encode_text (model (vstore self)) question)) (embeddings self)"
  let ?idxs = "take (nat top_k) (argsort_desc ?scores)"
  have unfold: "ask self cos_sim query_openrouter question top_k_arg =
           (case retrieve_top_k (vstore self) cos_sim (chunks self) (embeddings self) question top_k of
              Inl err \<Rightarrow> Inl err
            | Inr top_chunks \<Rightarrow> query_openrouter question (str_join [CHR 0x0A, CHR 0x0A] top_chunks))"
    using assms(1) by (simp add: ask_def Let_def cong: sum.case_cong)
  have within: "\<exists>idxs. is_top_k ?scores (nat top_k) idxs \<and>
          ask self cos_sim query_openrouter question top_k_arg =
          query_openrouter question (str_join [CHR 0x0A, CHR 0x0A] (map ((!) (chunks self)) idxs))"
    if lo: "0 \<le> top_k" and hi: "top_k \<le> int (length (embeddings self))"
  proof -
    have top: "is_top_k ?scores (nat top_k) ?idxs"
      using lo hi by (intro is_top_k_take_argsort) simp
    have "retrieve_top_k (vstore self) cos_sim (chunks self) (embeddings self) question top_k =
          Inr (map ((!) (chunks self)) ?idxs)"
      by (rule retrieve_top_k_ok [OF assms(2) lo hi])
    with unfold have "ask self cos_sim query_openrouter question top_k_arg =
        query_openrouter question (str_join [CHR 0x0A, CHR 0x0A] (map ((!) (chunks self)) ?idxs))"
      by simp
    with top show ?thesis
      by blast
  qed
  have beyond: "ask self cos_sim query_openrouter question top_k_arg =
      Inl (RuntimeError ''selected index k out of range'')"
    if "int (length (embeddings self)) < top_k"
    using unfold retrieve_top_k_too_many [OF that] by simp
  from within beyond show ?thesis
    by blast
qed

theorem ask_top_k_within_pool_counterexample:
  "ask example_small_chat example_cos_sim example_openrouter ''alpha fact two'' None =
     Inl (RuntimeError ''selected index k out of range'') \<and>
   ask example_small_chat example_cos_sim example_openrouter ''alpha fact two'' None \<noteq>
     example_openrouter ''alpha fact two''
       (str_join [CHR 0x0A, CHR 0x0A] [''alpha fact two'', ''alpha fact one''])"
  by (simp add: ask_def retrieve_top_k_def topk_indices_def example_small_chat_def
      example_openrouter_def)

lemma example_ask_default:
  "ask example_chat example_cos_sim example_openrouter ''alpha fact two'' None =
   Inr (''Q: alpha fact two C: alpha fact two'' @ [CHR 0x0A, CHR 0x0A] @ ''beta fact one'' @
        [CHR 0x0A, CHR 0x0A] @ ''alpha fact one'')"
  using example_retrieve_all
  by (simp add: ask_def Let_def example_chat_def example_openrouter_def)

theorem ask_top_k_within_pool_witness:
  "(3::int) = (case None of None \<Rightarrow> 3 | Some k \<Rightarrow> k) \<and>
   length (chunks example_chat) = length (embeddings example_chat) \<and>
   length (chunks example_small_chat) = length (embeddings example_small_chat) \<and>
   (0::int) \<le> 3 \<and> (3::int) \<le> int (length (embeddings example_chat)) \<and>
   int (length (embeddings example_small_chat)) < 3 \<and>
   (\<exists>idxs. is_top_k (map (example_cos_sim (encode_text (model (vstore example_chat)) ''alpha fact two''))
                (embeddings example_chat)) (nat 3) idxs \<and>
      ask example_chat example_cos_sim example_openrouter ''alpha fact two'' None =
      example_openrouter ''alpha fact two''
        (str_join [CHR 0x0A, CHR 0x0A] (map ((!) (chunks example_chat)) idxs))) \<and>
   ask example_chat example_cos_sim example_openrouter ''alpha fact two'' None =
   Inr (''Q: alpha fact two C: alpha fact two'' @ [CHR 0x0A, CHR 0x0A] @ ''beta fact one'' @
        [CHR 0x0A, CHR 0x0A] @ ''alpha fact one'') \<and>
   ask example_small_chat example_cos_sim example_openrouter ''alpha fact two'' None =
   Inl (RuntimeError ''selected index k out of range'')"
proof -
  have h1: "(3::int) = (case None of None \<Rightarrow> 3 | Some k \<Rightarrow> k)"
    by simp
  have h2: "length (chunks example_chat) = length (embeddings example_chat)"
    by (simp add: example_chat_def)
  have h2': "length (chunks example_small_chat) = length (embeddings example_small_chat)"
    by (simp add: example_small_chat_def)
  have h3: "(0::int) \<le> 3"
    by simp
  have h4: "(3::int) \<le> int (length (embeddings example_chat))"
    by (simp add: example_chat_def example_chunks_def)
  have h5: "int (length (embeddings example_small_chat)) < 3"
    by (simp add: example_small_chat_def)
  show ?thesis
    using h1 h2 h2' h3 h4 h5 example_ask_default
      ask_top_k_within_pool [OF h1 h2, of example_cos_sim "''alpha fact two''" example_openrouter]
      ask_top_k_within_pool [OF h1 h2', of example_cos_sim "''alpha fact two''" example_openrouter]
    by blast
qed

subsection \<open>fetch_all: building the pool\<close>

lemma fetch_cases:
  "(\<exists>e. load vs pdf_name w = Inr e \<and> fetch vs pdf_name C w = (Inr e, w)) \<or>
   (\<exists>files. cache_files w = Some files \<and> files (get_cache_path vs pdf_name) = None \<and>
      fetch vs pdf_name C w =
        (Inr (C, encode_texts (model vs) C),
         w\<lparr>model_calls := model_calls w @ [C],
           cache_files := Some (files(get_cache_path vs pdf_name \<mapsto> (C, encode_texts (model vs) C)))\<rparr>)) \<or>
   (cache_files w = None \<and>
      fetch vs pdf_name C w =
        (Inl (FileNotFoundError (get_cache_path vs pdf_name)), w\<lparr>model_calls := model_calls w @ [C]\<rparr>))"
  by (auto simp: fetch_def load_def create_def split: option.splits)

lemma fetch_Inr_load:
  assumes "fetch vs pdf_name C w = (Inr e, w1)"
  shows "load vs pdf_name w1 = Inr e"
  using assms fetch_cases [of vs pdf_name w C] by (auto simp: load_def)

lemma fetch_keeps_entries:
  assumes "fetch vs pdf_name C w = (r, w1)" and "load vs g w = Inr e"
  shows "load vs g w1 = Inr e"
proof -
  from assms(2) obtain files where files: "cache_files w = Some files"
    and g: "files (get_cache_path vs g) = Some e"
    by (auto simp: load_Inr_iff)
  show ?thesis
  proof (cases "files (get_cache_path vs pdf_name)")
    case None
    then have "get_cache_path vs g \<noteq> get_cache_path vs pdf_name"
      using g by auto
    then show ?thesis
      using assms(1) files g None by (auto simp: fetch_def load_def create_def)
  next
    case (Some e')
    then show ?thesis
      using assms files by (auto simp: fetch_def load_def)
  qed
qed

lemma ran_upd_fresh:
  "m p = None \<Longrightarrow> e \<in> ran (m(p \<mapsto> v)) \<Longrightarrow> e \<in> ran m \<or> e = v"
  by (auto simp: ran_def split: if_splits)

lemma fetch_cache_ok:
  assumes "fetch vs pdf_name C w = (r, w1)" and "model_ok (model vs)" and "cache_ok w"
  shows "cache_ok w1"
proof -
  have new: "entry_ok (C, encode_texts (model vs) C)"
    using assms(2) by (simp add: entry_ok_def model_ok_def)
  show ?thesis
    using assms(1,3) fetch_cases [of vs pdf_name w C] new
    by (auto simp: cache_ok_def dest: ran_upd_fresh)
qed

lemma fetch_dir_exists:
  assumes "cache_files w \<noteq> None"
  shows "\<exists>e w1. fetch vs pdf_name C w = (Inr e, w1) \<and> cache_files w1 \<noteq> None"
  using assms fetch_cases [of vs pdf_name w C] by auto

lemma zip_concat_entries:
  "\<forall>e\<in>set entries. entry_ok e \<Longrightarrow>
   zip (concat (map fst entries)) (concat (map snd entries)) =
   concat (map (\<lambda>e. zip (fst e) (snd e)) entries)"
  by (induction entries) (simp_all add: entry_ok_def)

lemma length_concat_entries:
  "\<forall>e\<in>set entries. entry_ok e \<Longrightarrow>
   length (concat (map fst entries)) = length (concat (map snd entries))"
  by (induction entries) (simp_all add: entry_ok_def)

lemma fetch_all_loop_step:
  assumes "endswith (lower name) ''.pdf''"
    and "fetch vs name (chunk_text_simple ld (load_pdf ld (path_join folder name))) w = (Inr e, w1)"
  shows "fetch_all_loop vs ld folder (name # files) (ac, ae) w =
         fetch_all_loop vs ld folder files (ac @ fst e, ae @ [snd e]) w1"
  using assms by (cases e) (simp add: Let_def)

lemma fetch_all_loop_skip:
  assumes "\<not> endswith (lower name) ''.pdf''"
  shows "fetch_all_loop vs ld folder (name # files) (ac, ae) w =
         fetch_all_loop vs ld folder files (ac, ae) w"
  using assms by simp

lemma fetch_all_loop_error:
  assumes "endswith (lower name) ''.pdf''"
    and "fetch vs name (chunk_text_simple ld (load_pdf ld (path_join folder name))) w = (Inl err, w1)"
  shows "fetch_all_loop vs ld folder (name # files) (ac, ae) w = (Inl err, w1)"
  using assms by (simp add: Let_def)

lemma fetch_all_loop_result:
  assumes "fetch_all_loop vs ld folder files (ac, ae) w = (Inr (ac', ae'), w')"
  shows "(\<exists>entries. map Inr entries = map (\<lambda>name. load vs name w') (pdf_entries files) \<and>
           ac' = ac @ concat (map fst entries) \<and> ae' = ae @ map snd entries) \<and>
         (\<forall>g e. load vs g w = Inr e \<longrightarrow> load vs g w' = Inr e) \<and>
         (model_ok (model vs) \<and> cache_ok w \<longrightarrow> cache_ok w')"
  using assms
proof (induction files arbitrary: ac ae w)
  case Nil
  then show ?case by (simp add: pdf_entries_def)
next
  case (Cons name files)
  show ?case
  proof (cases "endswith (lower name) ''.pdf''")
    case False
    from Cons.prems have "fetch_all_loop vs ld folder files (ac, ae) w = (Inr (ac', ae'), w')"
      by (simp only: fetch_all_loop_skip [OF False])
    from Cons.IH [OF this] False show ?thesis
      by (simp add: pdf_entries_def)
  next
    case True
    let ?C = "chunk_text_simple ld (load_pdf ld (path_join folder name))"
    obtain r w1 where f: "fetch vs name ?C w = (r, w1)"
      by (cases "fetch vs name ?C w")
    show ?thesis
    proof (cases r)
      case (Inl err)
      with f have "fetch vs name ?C w = (Inl err, w1)" by simp
      from fetch_all_loop_error [OF True this] Cons.prems show ?thesis
        by simp
    next
      case (Inr e)
      with f have fe: "fetch vs name ?C w = (Inr e, w1)" by simp
      from Cons.prems
      have rest: "fetch_all_loop vs ld folder files (ac @ fst e, ae @ [snd e]) w1 = (Inr (ac', ae'), w')"
        by (simp only: fetch_all_loop_step [OF True fe])
      note ih = Cons.IH [OF rest]
      from ih obtain entries where
        ents: "map Inr entries = map (\<lambda>name. load vs name w') (pdf_entries files)"
        and ac': "ac' = (ac @ fst e) @ concat (map fst entries)"
        and ae': "ae' = (ae @ [snd e]) @ map snd entries"
        by blast
      from ih have mono1: "\<forall>g e. load vs g w1 = Inr e \<longrightarrow> load vs g w' = Inr e"
        by blast
      from ih have ok1: "model_ok (model vs) \<and> cache_ok w1 \<longrightarrow> cache_ok w'"
        by blast
      have "load vs name w1 = Inr e"
        using fe by (rule fetch_Inr_load)
      with mono1 have here: "load vs name w' = Inr e"
        by blast
      have "map Inr (e # entries) = map (\<lambda>name. load vs name w') (pdf_entries (name # files))"
        using ents here True by (simp add: pdf_entries_def)
      moreover have "ac' = ac @ concat (map fst (e # entries))"
        using ac' by simp
      moreover have "ae' = ae @ map snd (e # entries)"
        using ae' by simp
      ultimately have part1: "\<exists>entries. map Inr entries =
            map (\<lambda>name. load vs name w') (pdf_entries (name # files)) \<and>
          ac' = ac @ concat (map fst entries) \<and> ae' = ae @ map snd entries"
        by blast
      have part2: "\<forall>g e. load vs g w = Inr e \<longrightarrow> load vs g w' = Inr e"
        using mono1 fetch_keeps_entries [OF fe] by blast
      have part3: "model_ok (model vs) \<and> cache_ok w \<longrightarrow> cache_ok w'"
        using ok1 fetch_cache_ok [OF fe] by blast
      from part1 part2 part3 show ?thesis
        by blast
    qed
  qed
qed

lemma fetch_all_loop_dir_exists:
  assumes "cache_files w \<noteq> None"
  shows "\<exists>acc w'. fetch_all_loop vs ld folder files (ac, ae) w = (Inr acc, w')"
  using assms
proof (induction files arbitrary: ac ae w)
  case Nil
  then show ?case by simp
next
  case (Cons name files)
  show ?case
  proof (cases "endswith (lower name) ''.pdf''")
    case False
    from Cons.IH [OF Cons.prems] show ?thesis
      by (simp only: fetch_all_loop_skip [OF False])
  next
    case True
    let ?C = "chunk_text_simple ld (load_pdf ld (path_join folder name))"
    from fetch_dir_exists [OF Cons.prems] obtain e w1
      where fe: "fetch vs name ?C w = (Inr e, w1)" and dir: "cache_files w1 \<noteq> None"
      by blast
    from Cons.IH [OF dir] show ?thesis
      by (simp only: fetch_all_loop_step [OF True fe])
  qed
qed

text \<open>
  The test \<^verbatim>\<open>file.lower().endswith(".pdf")\<close> accepts exactly the names that end in a dot
  and the letters p, d, f, each in either case.
\<close>

lemma lower_char_cases:
  "lower_char c = c \<or>
   (65 \<le> (of_char c :: nat) \<and> (of_char c :: nat) \<le> 90 \<and>
    of_char (lower_char c) = (of_char c :: nat) + 32)"
  unfolding lower_char_def Let_def
  by (simp add: of_char_of)

lemma lower_char_eq_lower:
  assumes "97 \<le> (of_char l :: nat)" and "(of_char l :: nat) \<le> 122"
  shows "lower_char c = l \<longleftrightarrow> c = l \<or> (of_char c :: nat) + 32 = of_char l"
proof
  assume a: "lower_char c = l"
  from lower_char_cases [of c] show "c = l \<or> (of_char c :: nat) + 32 = of_char l"
    using a by auto
next
  assume "c = l \<or> (of_char c :: nat) + 32 = of_char l"
  then show "lower_char c = l"
  proof
    assume "c = l"
    with assms show ?thesis by (simp add: lower_char_def)
  next
    assume b: "(of_char c :: nat) + 32 = of_char l"
    with assms have "65 \<le> (of_char c :: nat) \<and> (of_char c :: nat) \<le> 90" by linarith
    then have "lower_char c = char_of ((of_char c :: nat) + 32)"
      by (simp add: lower_char_def)
    also have "\<dots> = l" unfolding b by simp
    finally show ?thesis .
  qed
qed

lemma lower_char_dot: "lower_char c = CHR ''.'' \<longleftrightarrow> c = CHR ''.''"
proof
  assume a: "lower_char c = CHR ''.''"
  from lower_char_cases [of c] show "c = CHR ''.''"
  proof
    assume "lower_char c = c" with a show ?thesis by simp
  next
    assume b: "65 \<le> (of_char c :: nat) \<and> (of_char c :: nat) \<le> 90 \<and>
      of_char (lower_char c) = (of_char c :: nat) + 32"
    have "(of_char (lower_char c) :: nat) = 46" unfolding a by simp
    with b have False by linarith
    then show ?thesis ..
  qed
next
  assume "c = CHR ''.''" then show "lower_char c = CHR ''.''"
    by (simp add: lower_char_def)
qed

lemma upper_of_lower:
  "(of_char c :: nat) + 32 = of_char (CHR ''p'') \<longleftrightarrow> c = CHR ''P''"
  "(of_char c :: nat) + 32 = of_char (CHR ''d'') \<longleftrightarrow> c = CHR ''D''"
  "(of_char c :: nat) + 32 = of_char (CHR ''f'') \<longleftrightarrow> c = CHR ''F''"
proof -
  have "(of_char c :: nat) + 32 = of_char (CHR ''p'') \<longleftrightarrow> (of_char c :: nat) = of_char (CHR ''P'')"
    by simp
  then show "(of_char c :: nat) + 32 = of_char (CHR ''p'') \<longleftrightarrow> c = CHR ''P''"
    by (simp only: of_char_eq_iff)
  have "(of_char c :: nat) + 32 = of_char (CHR ''d'') \<longleftrightarrow> (of_char c :: nat) = of_char (CHR ''D'')"
    by simp
  then show "(of_char c :: nat) + 32 = of_char (CHR ''d'') \<longleftrightarrow> c = CHR ''D''"
    by (simp only: of_char_eq_iff)
  have "(of_char c :: nat) + 32 = of_char (CHR ''f'') \<longleftrightarrow> (of_char c :: nat) = of_char (CHR ''F'')"
    by simp
  then show "(of_char c :: nat) + 32 = of_char (CHR ''f'') \<longleftrightarrow> c = CHR ''F''"
    by (simp only: of_char_eq_iff)
qed

lemma lower_char_pdf:
  "lower_char c = CHR ''p'' \<longleftrightarrow> c = CHR ''p'' \<or> c = CHR ''P''"
  "lower_char c = CHR ''d'' \<longleftrightarrow> c = CHR ''d'' \<or> c = CHR ''D''"
  "lower_char c = CHR ''f'' \<longleftrightarrow> c = CHR ''f'' \<or> c = CHR ''F''"
  by (simp_all only: lower_char_eq_lower [of "CHR ''p''", simplified]
      lower_char_eq_lower [of "CHR ''d''", simplified] lower_char_eq_lower [of "CHR ''f''", simplified]
      upper_of_lower [simplified])

lemma endswith_lower_pdf_iff:
  "endswith (lower name) ''.pdf'' \<longleftrightarrow>
   (\<exists>stem p d f. name = stem @ [CHR ''.'', p, d, f] \<and>
      (p = CHR ''p'' \<or> p = CHR ''P'') \<and> (d = CHR ''d'' \<or> d = CHR ''D'') \<and>
      (f = CHR ''f'' \<or> f = CHR ''F''))"
proof
  assume a: "endswith (lower name) ''.pdf''"
  let ?n = "length name - length ''.pdf''"
  from a have suf: "map lower_char (drop ?n name) = ''.pdf''"
    unfolding endswith_def lower_def drop_map length_map by blast
  from suf obtain a b c d where d4: "drop ?n name = [a, b, c, d]"
    and "lower_char a = CHR ''.''" "lower_char b = CHR ''p''" "lower_char c = CHR ''d''"
    "lower_char d = CHR ''f''"
    by (auto simp: map_eq_Cons_conv)
  moreover have "name = take ?n name @ drop ?n name" by simp
  ultimately show "\<exists>stem p d f. name = stem @ [CHR ''.'', p, d, f] \<and>
      (p = CHR ''p'' \<or> p = CHR ''P'') \<and> (d = CHR ''d'' \<or> d = CHR ''D'') \<and>
      (f = CHR ''f'' \<or> f = CHR ''F'')"
    unfolding lower_char_dot lower_char_pdf by metis
next
  assume "\<exists>stem p d f. name = stem @ [CHR ''.'', p, d, f] \<and>
      (p = CHR ''p'' \<or> p = CHR ''P'') \<and> (d = CHR ''d'' \<or> d = CHR ''D'') \<and>
      (f = CHR ''f'' \<or> f = CHR ''F'')"
  then obtain stem p d f where name: "name = stem @ [CHR ''.'', p, d, f]"
    and "lower_char p = CHR ''p''" "lower_char d = CHR ''d''" "lower_char f = CHR ''f''"
    unfolding lower_char_pdf [symmetric] by blast
  moreover have "lower_char (CHR ''.'') = CHR ''.''"
    by (simp add: lower_char_dot)
  ultimately show "endswith (lower name) ''.pdf''"
    by (simp add: endswith_def lower_def)
qed

lemma fetch_all_listing_fails:
  "listdir w folder = None \<Longrightarrow> fetch_all vs ld folder w = (Inl (FileNotFoundError folder), w)"
  by (simp add: fetch_all_def)

lemma fetch_all_unfold:
  assumes "listdir w folder = Some files"
    and "fetch_all_loop vs ld folder files ([], []) w = (Inr (ac, ae), w')"
  shows "fetch_all vs ld folder w =
         (if ac = [] then Inl (ValueError ''No valid PDFs found in the specified folder.'')
          else Inr (ac, concat ae), w')"
  using assms by (simp add: fetch_all_def)

lemma fetch_all_Inr:
  assumes "fst (fetch_all vs ld folder w) = Inr (cs, es)"
  shows "\<exists>files ae. listdir w folder = Some files \<and>
           fetch_all_loop vs ld folder files ([], []) w = (Inr (cs, ae), snd (fetch_all vs ld folder w)) \<and>
           es = concat ae"
  using assms
  by (auto simp: fetch_all_def split: option.splits prod.splits sum.splits if_splits)

lemma load_cache_ok:
  assumes "cache_ok w" and "load vs name w = Inr e"
  shows "entry_ok e"
proof -
  from assms(2) obtain files where "cache_files w = Some files"
    and "files (get_cache_path vs name) = Some e"
    by (auto simp: load_Inr_iff)
  moreover from this have "e \<in> ran files"
    by (auto intro: ranI)
  ultimately show ?thesis
    using assms(1) unfolding cache_ok_def by blast
qed

lemma entries_ok:
  assumes "cache_ok w" and "map Inr entries = map (\<lambda>name. load vs name w) names"
  shows "\<forall>e\<in>set entries. entry_ok e"
  using assms(2)
proof (induction entries arbitrary: names)
  case Nil
  then show ?case by simp
next
  case (Cons e entries)
  then obtain n ns where names: "names = n # ns"
    by (cases names) auto
  with Cons.prems have "load vs n w = Inr e" and "map Inr entries = map (\<lambda>name. load vs name w) ns"
    by simp_all
  with Cons.IH assms(1) show ?case
    by (auto dest: load_cache_ok)
qed

text \<open>
  Claim C7: when \<open>fetch_all\<close> returns a pool, the model gives one row for each text and
  every entry already in the cache has as many rows as chunks, then the pool has as many
  rows as chunks. The pool is the concatenation, in the order of the directory listing, of
  the cache entries of the pdf files, chunks and rows alike, so the chunk and the row at a
  position of the pool are a chunk of one entry and the row at the same position there.
\<close>

theorem fetch_all_pool_invariant:
  assumes "fst (fetch_all vs ld folder w) = Inr (cs, es)"
    and "model_ok (model vs)" and "cache_ok w"
  shows "length cs = length es \<and>
         (\<exists>files entries. listdir w folder = Some files \<and>
            map Inr entries =
              map (\<lambda>name. load vs name (snd (fetch_all vs ld folder w))) (pdf_entries files) \<and>
            (\<forall>e\<in>set entries. entry_ok e) \<and>
            cs = concat (map fst entries) \<and> es = concat (map snd entries) \<and>
            zip cs es = concat (map (\<lambda>e. zip (fst e) (snd e)) entries))"
proof -
  let ?w' = "snd (fetch_all vs ld folder w)"
  from fetch_all_Inr [OF assms(1)] obtain files ae
    where ls: "listdir w folder = Some files"
      and loop: "fetch_all_loop vs ld folder files ([], []) w = (Inr (cs, ae), ?w')"
      and es: "es = concat ae"
    by blast
  from fetch_all_loop_result [OF loop] obtain entries
    where ents: "map Inr entries = map (\<lambda>name. load vs name ?w') (pdf_entries files)"
      and cs: "cs = concat (map fst entries)" and ae: "ae = map snd entries"
    by auto
  from fetch_all_loop_result [OF loop] assms(2,3) have "cache_ok ?w'"
    by blast
  then have ok: "\<forall>e\<in>set entries. entry_ok e"
    using ents by (rule entries_ok)
  have "length cs = length es"
    using ok cs es ae by (simp add: length_concat_entries)
  moreover have "zip cs es = concat (map (\<lambda>e. zip (fst e) (snd e)) entries)"
    using ok cs es ae by (simp add: zip_concat_entries)
  ultimately show ?thesis
    using ls ents ok cs es ae by blast
qed

lemma expected_entry_hit:
  "cache (get_cache_path vs name) = Some e \<Longrightarrow> expected_entry vs ld folder cache pdfs name = e"
  by (simp add: expected_entry_def)

lemma expected_entry_first:
  "cache (get_cache_path vs name) = None \<Longrightarrow>
   expected_entry vs ld folder cache (name # rest) name =
   (document_chunks ld folder name, encode_texts (model vs) (document_chunks ld folder name))"
  by (simp add: expected_entry_def Let_def)

lemma expected_entry_after_hit:
  assumes "cache (get_cache_path vs name) \<noteq> None"
  shows "expected_entry vs ld folder cache (name # rest) x = expected_entry vs ld folder cache rest x"
proof (cases "cache (get_cache_path vs x)")
  case None
  with assms have "get_cache_path vs name \<noteq> get_cache_path vs x" by auto
  with None show ?thesis by (simp add: expected_entry_def split: option.splits)
next
  case (Some e')
  then show ?thesis by (simp add: expected_entry_def)
qed

lemma expected_entry_after_miss:
  assumes "cache (get_cache_path vs name) = None"
    and "e = (document_chunks ld folder name, encode_texts (model vs) (document_chunks ld folder name))"
  shows "expected_entry vs ld folder cache (name # rest) x =
         expected_entry vs ld folder (cache(get_cache_path vs name \<mapsto> e)) rest x"
proof (cases "get_cache_path vs x = get_cache_path vs name")
  case True
  with assms show ?thesis by (simp add: expected_entry_def Let_def)
next
  case False
  then have "get_cache_path vs name \<noteq> get_cache_path vs x" by simp
  with False show ?thesis by (simp add: expected_entry_def split: option.splits)
qed

lemma fetch_all_loop_collects:
  assumes "cache_files w = Some cache"
  shows "fst (fetch_all_loop vs ld folder files (ac, ae) w) =
         Inr (ac @ concat (map fst (map (expected_entry vs ld folder cache (pdf_entries files)) (pdf_entries files))),
              ae @ map snd (map (expected_entry vs ld folder cache (pdf_entries files)) (pdf_entries files)))"
  using assms
proof (induction files arbitrary: ac ae w cache)
  case Nil
  then show ?case by (simp add: pdf_entries_def)
next
  case (Cons name files)
  show ?case
  proof (cases "endswith (lower name) ''.pdf''")
    case False
    then have "pdf_entries (name # files) = pdf_entries files"
      by (simp add: pdf_entries_def)
    with Cons.IH [OF Cons.prems] show ?thesis
      by (simp only: fetch_all_loop_skip [OF False])
  next
    case True
    let ?p = "get_cache_path vs name"
    let ?C = "chunk_text_simple ld (load_pdf ld (path_join folder name))"
    have pdfs: "pdf_entries (name # files) = name # pdf_entries files"
      using True by (simp add: pdf_entries_def)
    show ?thesis
    proof (cases "cache ?p")
      case (Some e)
      with Cons.prems have "load vs name w = Inr e"
        by (simp add: load_Inr_iff)
      then have fe: "fetch vs name ?C w = (Inr e, w)"
        by (rule fetch_hit)
      have same: "map (expected_entry vs ld folder cache (name # pdf_entries files)) (pdf_entries files) =
                  map (expected_entry vs ld folder cache (pdf_entries files)) (pdf_entries files)"
        using Some by (simp add: expected_entry_after_hit)
      have here: "expected_entry vs ld folder cache (name # pdf_entries files) name = e"
        using Some by (rule expected_entry_hit)
      from Cons.IH [OF Cons.prems, of "ac @ fst e" "ae @ [snd e]"] show ?thesis
        unfolding fetch_all_loop_step [OF True fe] pdfs
        by (simp add: same here)
    next
      case None
      define e where "e = (document_chunks ld folder name,
        encode_texts (model vs) (document_chunks ld folder name))"
      define cache' where "cache' = cache(?p \<mapsto> e)"
      have "\<exists>w1. fetch vs name ?C w = (Inr e, w1) \<and> cache_files w1 = Some cache'"
        using fetch_miss [where vs=vs and w=w and files=cache and pdf_name=name and C="?C",
            OF Cons.prems None]
        by (simp add: e_def cache'_def document_chunks_def)
      then obtain w1 where fe: "fetch vs name ?C w = (Inr e, w1)"
        and w1: "cache_files w1 = Some cache'"
        by blast
      have same: "map (expected_entry vs ld folder cache (name # pdf_entries files)) (pdf_entries files) =
                  map (expected_entry vs ld folder cache' (pdf_entries files)) (pdf_entries files)"
        using expected_entry_after_miss [where vs=vs and cache=cache and name=name, OF None e_def]
        unfolding cache'_def by simp
      have here: "expected_entry vs ld folder cache (name # pdf_entries files) name = e"
        using expected_entry_first [where vs=vs and cache=cache and name=name, OF None]
        by (simp add: e_def)
      from Cons.IH [OF w1, of "ac @ fst e" "ae @ [snd e]"] show ?thesis
        unfolding fetch_all_loop_step [OF True fe] pdfs
        by (simp add: same here)
    qed
  qed
qed

lemma filter_same_key_distinct:
  assumes "distinct (map f xs)" and "x \<in> set xs"
  shows "filter (\<lambda>y. f y = f x) xs = [x]"
  using assms
proof (induction xs)
  case Nil
  then show ?case by simp
next
  case (Cons a xs)
  show ?case
  proof (cases "a = x")
    case True
    with Cons.prems have "f x \<notin> f ` set xs" by simp
    then have "\<forall>y\<in>set xs. f y \<noteq> f x" by (metis imageI)
    then have "filter (\<lambda>y. f y = f x) xs = []" by (simp add: filter_empty_conv)
    with True show ?thesis by simp
  next
    case False
    with Cons.prems have "x \<in> set xs" and "f a \<noteq> f x" by auto
    with Cons show ?thesis by simp
  qed
qed

lemma expected_entry_fresh:
  assumes "cache (get_cache_path vs name) = None"
    and "distinct (map (get_cache_path vs) pdfs)" and "name \<in> set pdfs"
  shows "expected_entry vs ld folder cache pdfs name =
         (document_chunks ld folder name, encode_texts (model vs) (document_chunks ld folder name))"
  using assms(1) filter_same_key_distinct [OF assms(2,3)]
  by (simp add: expected_entry_def Let_def)

lemma fetch_all_collects:
  assumes "listdir w folder = Some files" and "cache_files w = Some cache"
  shows "fst (fetch_all vs ld folder w) =
         (if concat (map fst (map (expected_entry vs ld folder cache (pdf_entries files)) (pdf_entries files))) = []
          then Inl (ValueError ''No valid PDFs found in the specified folder.'')
          else Inr (concat (map fst (map (expected_entry vs ld folder cache (pdf_entries files)) (pdf_entries files))),
                    concat (map snd (map (expected_entry vs ld folder cache (pdf_entries files)) (pdf_entries files)))))"
proof -
  let ?E = "map (expected_entry vs ld folder cache (pdf_entries files)) (pdf_entries files)"
  obtain r w1 where loop: "fetch_all_loop vs ld folder files ([], []) w = (r, w1)"
    by (cases "fetch_all_loop vs ld folder files ([], []) w")
  from fetch_all_loop_collects [OF assms(2), of vs ld folder files "[]" "[]"] loop
  have r: "r = Inr (concat (map fst ?E), map snd ?E)"
    by simp
  show ?thesis
    using assms(1) loop unfolding r fetch_all_def
    by (simp del: concat_eq_Nil_conv map_map)
qed

text \<open>
  Claim C5: when the folder can be listed and the cache directory exists, \<open>fetch_all\<close>
  raises the ValueError of the empty corpus exactly when the listing has no name that ends
  in \<^verbatim>\<open>.pdf\<close> (in any case of the letters) or the chunks collected over those files are
  empty; otherwise it returns the chunks collected and the rows stacked, without error. The
  chunks collected are those of \<open>expected_entry\<close> for each pdf file, in the order of the
  listing: the entry cached before the call, or else the chunks of the document itself. On
  a cache that holds none of the files (and without two files of one key) they are the
  chunks of all the documents.
\<close>

theorem fetch_all_empty_corpus:
  assumes "listdir w folder = Some files" and "cache_files w = Some cache"
  shows "(let pdfs = pdf_entries files;
              collected = map (expected_entry vs ld folder cache pdfs) pdfs;
              all_chunks = concat (map fst collected)
          in fst (fetch_all vs ld folder w) =
               (if pdfs = [] \<or> all_chunks = []
                then Inl (ValueError ''No valid PDFs found in the specified folder.'')
                else Inr (all_chunks, concat (map snd collected))) \<and>
             ((\<forall>name\<in>set pdfs. cache (get_cache_path vs name) = None) \<and>
              distinct (map (get_cache_path vs) pdfs) \<longrightarrow>
              all_chunks = concat (map (document_chunks ld folder) pdfs))) \<and>
         (\<forall>name. name \<in> set (pdf_entries files) \<longleftrightarrow>
            name \<in> set files \<and>
            (\<exists>stem p d f. name = stem @ [CHR ''.'', p, d, f] \<and>
               (p = CHR ''p'' \<or> p = CHR ''P'') \<and> (d = CHR ''d'' \<or> d = CHR ''D'') \<and>
               (f = CHR ''f'' \<or> f = CHR ''F'')))"
proof -
  let ?pdfs = "pdf_entries files"
  let ?E = "map (expected_entry vs ld folder cache ?pdfs) ?pdfs"
  have none: "?pdfs = [] \<Longrightarrow> concat (map fst ?E) = []"
    by simp
  have res: "fst (fetch_all vs ld folder w) =
      (if ?pdfs = [] \<or> concat (map fst ?E) = []
       then Inl (ValueError ''No valid PDFs found in the specified folder.'')
       else Inr (concat (map fst ?E), concat (map snd ?E)))"
    using fetch_all_collects [OF assms, of vs ld] none
    by (auto simp del: concat_eq_Nil_conv map_map)
  have fresh: "concat (map fst ?E) = concat (map (document_chunks ld folder) ?pdfs)"
    if "\<forall>name\<in>set ?pdfs. cache (get_cache_path vs name) = None"
      and "distinct (map (get_cache_path vs) ?pdfs)"
  proof -
    have "map fst ?E = map (document_chunks ld folder) ?pdfs"
      using that by (simp add: expected_entry_fresh)
    then show ?thesis by (simp only:)
  qed
  have names: "\<forall>name. name \<in> set ?pdfs \<longleftrightarrow>
      name \<in> set files \<and>
      (\<exists>stem p d f. name = stem @ [CHR ''.'', p, d, f] \<and>
         (p = CHR ''p'' \<or> p = CHR ''P'') \<and> (d = CHR ''d'' \<or> d = CHR ''D'') \<and>
         (f = CHR ''f'' \<or> f = CHR ''F''))"
    by (simp add: pdf_entries_def endswith_lower_pdf_iff)
  from res fresh names show ?thesis
    unfolding Let_def by blast
qed

lemma example_paths:
  "get_cache_path example_store ''a.pdf'' = ''data/cache/a.pkl''"
  "get_cache_path example_store ''b.PDF'' = ''data/cache/b.pkl''"
  by (simp_all add: get_cache_path_def splitext_def path_join_def example_store_def Let_def)

lemma example_is_pdf:
  "endswith (lower ''a.pdf'') ''.pdf''" "\<not> endswith (lower ''notes.txt'') ''.pdf''"
  "endswith (lower ''b.PDF'') ''.pdf''"
  by code_simp+

lemma example_encode: "encode_texts (model example_store) = map example_embed"
  by (simp add: example_store_def example_model_def)

lemma example_fetch_all:
  "fst (fetch_all example_store example_loader ''data/pdf'' example_world) =
   Inr ([''alpha fact one'', ''alpha fact two'', ''beta fact one''], [[1, 0], [3, 4], [4, 3]])"
  by (simp add: fetch_all_def example_is_pdf fetch_def load_def create_def example_paths Let_def
      example_world_def example_loader_def path_join_def example_encode example_embed_def)

lemma example_model_ok: "model_ok (model example_store)"
  by (simp add: model_ok_def example_encode)

lemma example_cache_ok: "cache_ok example_world"
  by (simp add: cache_ok_def example_world_def)

lemma example_pdf_entries:
  "pdf_entries [''a.pdf'', ''notes.txt'', ''b.PDF''] = [''a.pdf'', ''b.PDF'']"
  "pdf_entries [''notes.txt''] = []"
  by (simp_all add: pdf_entries_def example_is_pdf)

theorem fetch_all_pool_invariant_witness:
  "fst (fetch_all example_store example_loader ''data/pdf'' example_world) =
     Inr ([''alpha fact one'', ''alpha fact two'', ''beta fact one''], [[1, 0], [3, 4], [4, 3]]) \<and>
   model_ok (model example_store) \<and> cache_ok example_world \<and>
   length [''alpha fact one'', ''alpha fact two'', ''beta fact one''] =
   length [[1, 0], [3, 4], [4, 3 :: real]]"
proof -
  have h1: "fst (fetch_all example_store example_loader ''data/pdf'' example_world) =
     Inr ([''alpha fact one'', ''alpha fact two'', ''beta fact one''], [[1, 0], [3, 4], [4, 3]])"
    by (rule example_fetch_all)
  show ?thesis
    using h1 example_model_ok example_cache_ok
      fetch_all_pool_invariant [OF h1 example_model_ok example_cache_ok]
    by blast
qed

lemma example_expected_entries:
  "map (expected_entry example_store example_loader ''data/pdf'' Map.empty [''a.pdf'', ''b.PDF''])
     [''a.pdf'', ''b.PDF''] =
   [([''alpha fact one'', ''alpha fact two''], [[1, 0], [3, 4]]), ([''beta fact one''], [[4, 3]])]"
  by (simp add: expected_entry_def example_paths document_chunks_def example_loader_def
      path_join_def example_encode example_embed_def)

theorem fetch_all_empty_corpus_witness:
  "listdir example_world ''data/empty'' = Some [''notes.txt''] \<and>
   listdir example_world ''data/pdf'' = Some [''a.pdf'', ''notes.txt'', ''b.PDF''] \<and>
   cache_files example_world = Some Map.empty \<and>
   fst (fetch_all example_store example_loader ''data/empty'' example_world) =
     Inl (ValueError ''No valid PDFs found in the specified folder.'') \<and>
   fst (fetch_all example_store example_loader ''data/pdf'' example_world) =
     Inr ([''alpha fact one'', ''alpha fact two'', ''beta fact one''], [[1, 0], [3, 4], [4, 3]])"
proof -
  have h1: "listdir example_world ''data/empty'' = Some [''notes.txt'']"
    by (simp add: example_world_def)
  have h2: "listdir example_world ''data/pdf'' = Some [''a.pdf'', ''notes.txt'', ''b.PDF'']"
    by (simp add: example_world_def)
  have h3: "cache_files example_world = Some Map.empty"
    by (simp add: example_world_def)
  have empty: "fst (fetch_all example_store example_loader ''data/empty'' example_world) =
     Inl (ValueError ''No valid PDFs found in the specified folder.'')"
    using fetch_all_empty_corpus [OF h1 h3, of example_store example_loader]
    by (simp add: example_pdf_entries)
  have full: "fst (fetch_all example_store example_loader ''data/pdf'' example_world) =
     Inr ([''alpha fact one'', ''alpha fact two'', ''beta fact one''], [[1, 0], [3, 4], [4, 3]])"
    using fetch_all_empty_corpus [OF h2 h3, of example_store example_loader]
    unfolding example_pdf_entries Let_def example_expected_entries
    by simp
  from h1 h2 h3 empty full show ?thesis
    by blast
qed

end
